theory Spec2Isabelle
  imports
    Complex_Main
    "HOL-Library.AList"
    "HOL-Library.Multiset"
    "HOL-Library.Char_ord"
    "HOL-Library.List_Lexorder"
begin

section \<open>Python values used by the risk engine\<close>

text \<open>
  Strings are lists of characters; a character stands for a code point below 256.
  A Python \<open>dict\<close> is an association list in insertion order: \<open>d[k] = v\<close> is
  \<open>AList.update k v d\<close> (an existing key keeps its place, a new key goes to the end),
  \<open>d.get(k, dflt)\<close> is \<open>dict_get d k dflt\<close> and \<open>len(d)\<close> is \<open>length d\<close>.
\<close>

definition dict_get :: "('k \<times> 'v) list \<Rightarrow> 'k \<Rightarrow> 'v \<Rightarrow> 'v" where
  "dict_get d k dflt = (case map_of d k of None \<Rightarrow> dflt | Some v \<Rightarrow> v)"

text \<open>\<open>str.isspace\<close> on the code points below 256, as used by \<open>str.strip()\<close>.\<close>

definition isspace :: "char \<Rightarrow> bool" where
  "isspace c = (c \<in> set [CHR 0x09, CHR 0x0A, CHR 0x0B, CHR 0x0C, CHR 0x0D,
                          CHR 0x1C, CHR 0x1D, CHR 0x1E, CHR 0x1F, CHR 0x20,
                          CHR 0x85, CHR 0xA0])"

definition strip :: "string \<Rightarrow> string" where
  "strip s = rev (dropWhile isspace (rev (dropWhile isspace s)))"

text \<open>\<open>str.lower()\<close> on the code points below 256.\<close>

definition lower_char :: "char \<Rightarrow> char" where
  "lower_char c =
     (let n = (of_char c :: nat)
      in if (65 \<le> n \<and> n \<le> 90) \<or> (192 \<le> n \<and> n \<le> 222 \<and> n \<noteq> 215)
         then char_of (n + 32) else c)"

definition lower :: "string \<Rightarrow> string" where
  "lower s = map lower_char s"

text \<open>\<open>s.startswith(p)\<close>, \<open>p in s\<close> (substring test) and \<open>s.endswith(p)\<close>.\<close>

fun startswith :: "string \<Rightarrow> string \<Rightarrow> bool" where
  "startswith s [] = True"
| "startswith [] (p # ps) = False"
| "startswith (c # cs) (p # ps) = (c = p \<and> startswith cs ps)"

fun contains :: "string \<Rightarrow> string \<Rightarrow> bool" where
  "contains [] p = (p = [])"
| "contains (c # cs) p = (startswith (c # cs) p \<or> contains cs p)"

definition endswith :: "string \<Rightarrow> string \<Rightarrow> bool" where
  "endswith s p = (length p \<le> length s \<and> drop (length s - length p) s = p)"

text \<open>\<open>s.split(d)\<close> for a one-character separator: the result is never empty.\<close>

fun split_acc :: "char \<Rightarrow> string \<Rightarrow> string \<Rightarrow> string list" where
  "split_acc d acc [] = [rev acc]"
| "split_acc d acc (c # cs) =
     (if c = d then rev acc # split_acc d [] cs else split_acc d (c # acc) cs)"

definition split_on :: "char \<Rightarrow> string \<Rightarrow> string list" where
  "split_on d s = split_acc d [] s"

text \<open>
  Exceptions are values: a computation either raises or returns. An \<open>exn\<close> is an
  instance of Python's \<open>Exception\<close>, carrying its message; interrupts and exits, which
  are not instances of \<open>Exception\<close>, are left out. \<open>try_except\<close> is
  \<open>try: body except Exception as e: handler e\<close>.
\<close>

datatype exn = Exception string

fun str_exn :: "exn \<Rightarrow> string" where
  "str_exn (Exception msg) = msg"

datatype 'a res = Raise exn | Return 'a

definition try_except :: "'a res \<Rightarrow> (exn \<Rightarrow> 'a res) \<Rightarrow> 'a res" where
  "try_except body handler = (case body of Raise e \<Rightarrow> handler e | Return v \<Rightarrow> Return v)"

section \<open>nlp\_risk.py: claim extraction\<close>

definition keyword_extract_claims :: "string \<Rightarrow> (string \<times> bool) list" where
  "keyword_extract_claims policy_text =
     (let text = lower policy_text;
          any_in = (\<lambda>ws. list_ex (\<lambda>word. contains text word) ws)
      in [(''mentions_location'',
             any_in [''location'', ''geolocation'', ''gps'', ''locational data'']),
          (''mentions_contacts'',
             any_in [''contacts'', ''address book'', ''contact list'']),
          (''mentions_camera'',
             any_in [''camera'', ''photos'', ''take pictures'', ''video recording'']),
          (''mentions_microphone'',
             any_in [''microphone'', ''audio recording'', ''voice recording'']),
          (''mentions_storage'',
             any_in [''storage'', ''files on your device'', ''media files'', ''photos and videos'']),
          (''mentions_phone'',
             any_in [''phone number'', ''call log'', ''telephony'']),
          (''mentions_ads_tracking'',
             any_in [''advertising id'', ''ads'', ''ad partners'', ''personalized ads'',
                     ''analytics partners'']),
          (''mentions_third_parties'',
             any_in [''third parties'', ''partners'', ''service providers'', ''affiliates'']),
          (''mentions_security'',
             any_in [''encrypt'', ''security'', ''protect your data'', ''secure'', ''safeguard''])])"

text \<open>
  The zero-shot classifier is an external library. A classifier object maps the text and
  the candidate labels to \<open>res["labels"]\<close> and \<open>res["scores"]\<close>, or raises. The
  outcome of \<open>from transformers import pipeline; pipeline(...)\<close> is the parameter
  \<open>mk_pipeline\<close>: it raises, or returns an object (possibly \<open>None\<close>). The module
  global \<open>_ZS_CLASSIFIER\<close> and the warnings written to the log are the state.
  Scores are the real numbers the floats denote; \<open>threshold_035\<close> is the double that the
  literal \<open>0.35\<close> denotes.
\<close>

type_synonym zs_result = "string list \<times> real list"

type_synonym classifier = "string \<Rightarrow> string list \<Rightarrow> zs_result res"

record world =
  ZS_CLASSIFIER :: "classifier option"
  warnings :: "string list"

definition init_zero_shot :: "classifier option res \<Rightarrow> world \<Rightarrow> (bool \<times> world) res" where
  "init_zero_shot mk_pipeline w =
     (if ZS_CLASSIFIER w \<noteq> None then Return (True, w)
      else try_except
             (case mk_pipeline of
                Raise e \<Rightarrow> Raise e
              | Return c \<Rightarrow> Return (True, w\<lparr>ZS_CLASSIFIER := c\<rparr>))
             (\<lambda>e. Return (False,
                    w\<lparr>ZS_CLASSIFIER := None,
                      warnings := warnings w @ [''Zero-shot init failed: '' @ str_exn e]\<rparr>)))"

definition candidate_labels :: "string list" where
  "candidate_labels =
     [''collects location data'',
      ''collects contact data'',
      ''collects camera or photos'',
      ''collects microphone or audio'',
      ''collects storage or files'',
      ''collects phone numbers or call logs'',
      ''uses advertising ids or tracking'',
      ''shares data with third parties or partners'',
      ''mentions security or encryption'']"

definition threshold_035 :: real where
  "threshold_035 = 3152519739159347 / 9007199254740992"

text \<open>
  The dict comprehension over \<open>zip(res["labels"], res["scores"])\<close> keeps the last score
  of a repeated label, hence the \<open>rev\<close>.
\<close>

definition zero_shot_claims :: "zs_result \<Rightarrow> (string \<times> bool) list" where
  "zero_shot_claims r =
     (let labels = rev (zip (fst r) (snd r));
          label_true = (\<lambda>s. dict_get labels s 0 \<ge> threshold_035)
      in [(''mentions_location'', label_true ''collects location data''),
          (''mentions_contacts'', label_true ''collects contact data''),
          (''mentions_camera'', label_true ''collects camera or photos''),
          (''mentions_microphone'', label_true ''collects microphone or audio''),
          (''mentions_storage'', label_true ''collects storage or files''),
          (''mentions_phone'', label_true ''collects phone numbers or call logs''),
          (''mentions_ads_tracking'', label_true ''uses advertising ids or tracking''),
          (''mentions_third_parties'', label_true ''shares data with third parties or partners''),
          (''mentions_security'', label_true ''mentions security or encryption'')])"

definition extract_policy_claims ::
  "classifier option res \<Rightarrow> world \<Rightarrow> string \<Rightarrow> ((string \<times> bool) list \<times> world) res" where
  "extract_policy_claims mk_pipeline w policy_text =
     (if policy_text = [] \<or> length (strip policy_text) < 20
      then Return (keyword_extract_claims policy_text, w)
      else
        case init_zero_shot mk_pipeline w of
          Raise e \<Rightarrow> Raise e
        | Return (ok, w1) \<Rightarrow>
            (case ZS_CLASSIFIER w1 of
               None \<Rightarrow> Return (keyword_extract_claims policy_text, w1)
             | Some classifier \<Rightarrow>
                 if \<not> ok then Return (keyword_extract_claims policy_text, w1)
                 else try_except
                        (case classifier policy_text candidate_labels of
                           Raise e \<Rightarrow> Raise e
                         | Return r \<Rightarrow> Return (zero_shot_claims r, w1))
                        (\<lambda>e. Return (keyword_extract_claims policy_text,
                               w1\<lparr>warnings := warnings w1 @
                                    [''Zero-shot classification error: '' @ str_exn e]\<rparr>))))"

section \<open>nlp\_risk.py: permission groups\<close>

definition SENSITIVE_PERMISSION_GROUPS :: "(string \<times> string list) list" where
  "SENSITIVE_PERMISSION_GROUPS =
     [(''location'',
         [''ACCESS_FINE_LOCATION'', ''ACCESS_COARSE_LOCATION'', ''ACCESS_BACKGROUND_LOCATION'',
          ''ACCESS_MEDIA_LOCATION'', ''ACCESS_WIFI_STATE'', ''NEARBY_WIFI_DEVICES'']),
      (''contacts'',
         [''READ_CONTACTS'', ''WRITE_CONTACTS'', ''GET_ACCOUNTS'', ''READ_PROFILE'']),
      (''camera'',
         [''CAMERA'', ''CAPTURE_VIDEO_OUTPUT'', ''FOREGROUND_SERVICE_CAMERA'']),
      (''microphone'',
         [''RECORD_AUDIO'', ''FOREGROUND_SERVICE_MICROPHONE'']),
      (''storage_media'',
         [''READ_EXTERNAL_STORAGE'', ''WRITE_EXTERNAL_STORAGE'',
          ''READ_MEDIA_IMAGES'', ''READ_MEDIA_VIDEO'', ''READ_MEDIA_VISUAL_USER_SELECTED'',
          ''MANAGE_EXTERNAL_STORAGE'']),
      (''phone'',
         [''READ_PHONE_STATE'', ''READ_PHONE_NUMBERS'', ''CALL_PHONE'',
          ''READ_CALL_LOG'', ''ANSWER_PHONE_CALLS'', ''MANAGE_OWN_CALLS'']),
      (''ads_tracking'',
         [''AD_ID'', ''ACCESS_ADSERVICES_AD_ID'', ''ACCESS_ADSERVICES_ATTRIBUTION''])]"

text \<open>\<open>perm.split(".")[-1]\<close>\<close>

definition perm_suffix :: "string \<Rightarrow> string" where
  "perm_suffix perm = last (split_on CHR ''.'' perm)"

text \<open>\<open>any(suffix == p or suffix.endswith(p) for p in perm_suffixes)\<close>\<close>

definition suffix_matches :: "string \<Rightarrow> string list \<Rightarrow> bool" where
  "suffix_matches suffix perm_suffixes =
     list_ex (\<lambda>p. suffix = p \<or> endswith suffix p) perm_suffixes"

text \<open>The inner loop over the groups, for one permission.\<close>

fun mark_groups ::
  "string \<Rightarrow> (string \<times> string list) list \<Rightarrow> (string \<times> bool) list \<Rightarrow> (string \<times> bool) list" where
  "mark_groups suffix [] used = used"
| "mark_groups suffix ((grp, perm_suffixes) # rest) used =
     mark_groups suffix rest
       (if suffix_matches suffix perm_suffixes then AList.update grp True used else used)"

text \<open>The outer loop over the permissions.\<close>

fun scan_permissions :: "string list \<Rightarrow> (string \<times> bool) list \<Rightarrow> (string \<times> bool) list" where
  "scan_permissions [] used = used"
| "scan_permissions (perm # rest) used =
     scan_permissions rest (mark_groups (perm_suffix perm) SENSITIVE_PERMISSION_GROUPS used)"

definition group_permissions :: "string list \<Rightarrow> (string \<times> bool) list" where
  "group_permissions permissions =
     scan_permissions permissions (map (\<lambda>k. (k, False)) (map fst SENSITIVE_PERMISSION_GROUPS))"

section \<open>nlp\_risk.py: the risk score\<close>

record risk_assessment =
  score :: int
  level :: string
  reasons :: "string list"
  claims :: "(string \<times> bool) list"
  used_groups :: "(string \<times> bool) list"

text \<open>
  The nested function \<open>check\<close> updates \<open>risk_points\<close> and \<open>reasons\<close>; here it takes
  and returns the pair.
\<close>

definition check ::
  "(string \<times> bool) list \<Rightarrow> (string \<times> bool) list \<Rightarrow> string \<Rightarrow> string \<Rightarrow> string \<Rightarrow> int \<Rightarrow>
   int \<times> string list \<Rightarrow> int \<times> string list" where
  "check used clm group_key claim_key label weight st =
     (if dict_get used group_key False \<and> \<not> dict_get clm claim_key False
      then (fst st + weight,
            snd st @ [''App accesses '' @ label @
                      '', but the privacy policy does not clearly mention it.''])
      else st)"

text \<open>The breadth penalty on the number of groups in use (source lines 140 to 150).\<close>

definition breadth :: "(string \<times> bool) list \<Rightarrow> int \<times> string list \<Rightarrow> int \<times> string list" where
  "breadth used st =
     (let num_groups_used = length (filter (\<lambda>v. v) (map snd used))
      in if num_groups_used \<ge> 5 then
           (fst st + 20,
            snd st @ [''App uses many categories of sensitive data (high data exposure surface).''])
         else if num_groups_used \<ge> 3 then
           (fst st + 10, snd st @ [''App uses multiple types of sensitive data.''])
         else if num_groups_used \<ge> 1 then
           (fst st + 5, snd st @ [''App accesses at least one type of sensitive data.''])
         else st)"

text \<open>The three unconditional tests after the checks (source lines 166 to 176).\<close>

definition ads_bonus :: "(string \<times> bool) list \<Rightarrow> int \<times> string list \<Rightarrow> int \<times> string list" where
  "ads_bonus used st =
     (if dict_get used ''ads_tracking'' False
      then (fst st + 5,
            snd st @ [''App uses advertising IDs / tracking, which increases profiling and behavioral targeting risk.''])
      else st)"

definition third_parties_penalty ::
  "(string \<times> bool) list \<Rightarrow> int \<times> string list \<Rightarrow> int \<times> string list" where
  "third_parties_penalty clm st =
     (if \<not> dict_get clm ''mentions_third_parties'' False
      then (fst st + 8,
            snd st @ [''Privacy policy does not clearly describe sharing with third parties or partners.''])
      else st)"

definition security_penalty ::
  "(string \<times> bool) list \<Rightarrow> int \<times> string list \<Rightarrow> int \<times> string list" where
  "security_penalty clm st =
     (if \<not> dict_get clm ''mentions_security'' False
      then (fst st + 5,
            snd st @ [''Privacy policy does not mention data security or protection measures clearly.''])
      else st)"

text \<open>\<open>risk_points\<close> and \<open>reasons\<close> as they stand before the clamp (source lines 137 to 176).\<close>

definition accumulate ::
  "(string \<times> bool) list \<Rightarrow> (string \<times> bool) list \<Rightarrow> int \<times> string list" where
  "accumulate used clm =
     (security_penalty clm
     (third_parties_penalty clm
     (ads_bonus used
     (check used clm ''ads_tracking'' ''mentions_ads_tracking'' ''advertising IDs / tracking'' 7
     (check used clm ''phone'' ''mentions_phone'' ''phone/call information'' 7
     (check used clm ''storage_media'' ''mentions_storage'' ''media/storage'' 7
     (check used clm ''microphone'' ''mentions_microphone'' ''microphone/audio'' 10
     (check used clm ''camera'' ''mentions_camera'' ''camera'' 10
     (check used clm ''contacts'' ''mentions_contacts'' ''contacts'' 10
     (check used clm ''location'' ''mentions_location'' ''location data'' 10
     (breadth used (0, []))))))))))))"

text \<open>\<open>risk_points\<close> after \<open>if risk_points > 90: risk_points = 90\<close>.\<close>

definition clamped_risk_points :: "(string \<times> bool) list \<Rightarrow> (string \<times> bool) list \<Rightarrow> int" where
  "clamped_risk_points used clm =
     (let risk_points = fst (accumulate used clm)
      in if risk_points > 90 then 90 else risk_points)"

definition compute_privacy_risk ::
  "classifier option res \<Rightarrow> world \<Rightarrow> string list \<Rightarrow> string \<Rightarrow> (risk_assessment \<times> world) res" where
  "compute_privacy_risk mk_pipeline w permissions policy_text =
     (if policy_text = [] \<or> length (strip policy_text) < 50 then
        Return (\<lparr>score = 25,
                 level = ''HIGH'',
                 reasons = [''No or insufficient privacy policy text available for analysis.''],
                 claims = [],
                 used_groups = group_permissions permissions\<rparr>, w)
      else
        case extract_policy_claims mk_pipeline w policy_text of
          Raise e \<Rightarrow> Raise e
        | Return (clm, w1) \<Rightarrow>
            let used = group_permissions permissions;
                rsn = snd (accumulate used clm);
                risk_points = clamped_risk_points used clm;
                sc = max 0 (100 - risk_points);
                lvl = (if sc \<ge> 75 then ''LOW'' else if sc \<ge> 50 then ''MEDIUM'' else ''HIGH'');
                rsn = (if rsn = []
                       then rsn @ [''No major mismatches or privacy concerns detected based on available information.'']
                       else rsn)
            in Return (\<lparr>score = sc, level = lvl, reasons = rsn, claims = clm, used_groups = used\<rparr>,
                       w1))"

section \<open>tracker\_analysis.py\<close>

definition fallback_trackers :: "(string \<times> string) list" where
  "fallback_trackers =
     [(''doubleclick.net'', ''ads''),
      (''google-analytics.com'', ''analytics''),
      (''googlesyndication.com'', ''ads''),
      (''firebaseio.com'', ''backend''),
      (''facebook.com'', ''social'')]"

text \<open>
  \<open>load_tracker_list\<close> reads the file \<open>trackers.csv\<close>, which is outside the program:
  opening or reading it raises, or yields the rows. A row is a dict from column name to
  cell; \<open>csv.DictReader\<close> fills the missing cells of a short row with \<open>None\<close>, on which
  \<open>.strip()\<close> raises. Any exception replaces the whole list by the built-in one.
\<close>

type_synonym csv_row = "(string \<times> string option) list"

fun read_rows :: "csv_row list \<Rightarrow> (string \<times> string) list \<Rightarrow> (string \<times> string) list res" where
  "read_rows [] trackers = Return trackers"
| "read_rows (row # rest) trackers =
     (case dict_get row ''domain'' (Some []) of
        None \<Rightarrow> Raise (Exception ''AttributeError'')
      | Some d \<Rightarrow>
          (case dict_get row ''category'' (Some ''tracker'') of
             None \<Rightarrow> Raise (Exception ''AttributeError'')
           | Some c \<Rightarrow>
               let domain = lower (strip d); cat = lower (strip c)
               in read_rows rest
                    (if domain \<noteq> [] then trackers @ [(domain, cat)] else trackers)))"

definition load_tracker_list :: "csv_row list res \<Rightarrow> (string \<times> string) list" where
  "load_tracker_list csv =
     (case (case csv of Raise e \<Rightarrow> Raise e | Return rows \<Rightarrow> read_rows rows []) of
        Raise e \<Rightarrow> fallback_trackers
      | Return trackers \<Rightarrow> trackers)"

record tracker_summary =
  all_domains :: "string list"
  tracker_domains :: "(string \<times> string) list"
  num_domains :: int
  num_trackers :: int
  category_counts :: "(string \<times> int) list"
  risk_level :: string

text \<open>
  The inner loop of \<open>classify_domains\<close>: \<open>matched_category\<close> is \<open>None\<close> or the category of
  the first entry whose pattern occurs in the domain.
\<close>

fun first_match :: "(string \<times> string) list \<Rightarrow> string \<Rightarrow> string option" where
  "first_match [] domain = None"
| "first_match ((pattern, category) # rest) domain =
     (if contains domain pattern then Some category else first_match rest domain)"

text \<open>
  The outer loop. \<open>if matched_category:\<close> is Python truthiness: it fails on \<open>None\<close> and
  also on the empty string.
\<close>

fun classify_loop ::
  "(string \<times> string) list \<Rightarrow> string list \<Rightarrow>
   (string \<times> string) list \<times> (string \<times> int) list \<Rightarrow>
   (string \<times> string) list \<times> (string \<times> int) list" where
  "classify_loop pats [] st = st"
| "classify_loop pats (domain # rest) st =
     (case first_match pats domain of
        None \<Rightarrow> classify_loop pats rest st
      | Some matched_category \<Rightarrow>
          if matched_category \<noteq> [] then
            classify_loop pats rest
              (AList.update domain matched_category (fst st),
               AList.update matched_category (dict_get (snd st) matched_category 0 + 1) (snd st))
          else classify_loop pats rest st)"

text \<open>
  The argument \<open>domains\<close> is a Python set: here the list of its elements in the order the
  loop visits them, without repetition. \<open>TRACKER_PATTERNS\<close>, a module global computed by
  \<open>load_tracker_list\<close> at import, is the first argument.
\<close>

definition classify_domains :: "(string \<times> string) list \<Rightarrow> string list \<Rightarrow> tracker_summary" where
  "classify_domains TRACKER_PATTERNS domains =
     (let st = classify_loop TRACKER_PATTERNS domains ([], []);
          n_trackers = int (length (fst st));
          n_domains = int (length domains);
          lvl = (if n_trackers = 0 then ''LOW''
                 else if n_trackers \<le> 3 then ''MEDIUM''
                 else if n_trackers \<le> 10 then ''MEDIUM''
                 else ''HIGH'')
      in \<lparr>all_domains = sort domains,
          tracker_domains = fst st,
          num_domains = n_domains,
          num_trackers = n_trackers,
          category_counts = snd st,
          risk_level = lvl\<rparr>)"

section \<open>Notions of the specification\<close>

text \<open>
  The level thresholds on the score, in the words of the specification: at least 75 is
  LOW, from 50 to below 75 is MEDIUM, below 50 is HIGH.
\<close>

definition spec_level :: "int \<Rightarrow> string" where
  "spec_level s =
     (if s \<ge> 75 then ''LOW'' else if 50 \<le> s \<and> s < 75 then ''MEDIUM'' else ''HIGH'')"

text \<open>
  The tracker thresholds, in the words of the specification: no tracker is LOW, 1 to 10
  trackers are MEDIUM, more than 10 are HIGH.
\<close>

definition spec_risk_level :: "int \<Rightarrow> string" where
  "spec_risk_level n =
     (if n = 0 then ''LOW'' else if 1 \<le> n \<and> n \<le> 10 then ''MEDIUM'' else ''HIGH'')"

text \<open>
  A group is in use by a permission list when the last dot-separated segment of some
  permission equals or ends with one of the group's suffixes. A permission is
  unrecognized when it does so for no group.
\<close>

definition in_group :: "string list \<Rightarrow> string \<Rightarrow> bool" where
  "in_group permissions k =
     list_ex (\<lambda>perm. list_ex (\<lambda>g. fst g = k \<and> suffix_matches (perm_suffix perm) (snd g))
                       SENSITIVE_PERMISSION_GROUPS) permissions"

definition unrecognized :: "string \<Rightarrow> bool" where
  "unrecognized perm =
     list_all (\<lambda>g. \<not> suffix_matches (perm_suffix perm) (snd g)) SENSITIVE_PERMISSION_GROUPS"

text \<open>
  The classifier that a call of \<open>extract_policy_claims\<close> can use: the cached one, else
  the one that building the pipeline yields, if any.
\<close>

definition backend :: "classifier option res \<Rightarrow> world \<Rightarrow> classifier option" where
  "backend mk_pipeline w =
     (case ZS_CLASSIFIER w of
        Some c \<Rightarrow> Some c
      | None \<Rightarrow> (case mk_pipeline of Raise e \<Rightarrow> None | Return c \<Rightarrow> c))"

text \<open>
  A domain is counted by \<open>classify_domains\<close> when the first entry whose pattern occurs in
  it has a category that Python takes for true.
\<close>

definition counted :: "(string \<times> string) list \<Rightarrow> string \<Rightarrow> bool" where
  "counted pats d = (case first_match pats d of None \<Rightarrow> False | Some c \<Rightarrow> c \<noteq> [])"

section \<open>The insufficient-policy short circuit\<close>

text \<open>
  Claim C1. Whatever the permissions, a policy text that is empty or whose stripped
  length is below 50 makes \<open>compute_privacy_risk\<close> return score 25, level HIGH, the one
  fixed reason, no claims, and the grouping of the permissions; the classifier is not
  touched.
\<close>

theorem compute_privacy_risk_short_circuit:
  assumes "policy_text = [] \<or> length (strip policy_text) < 50"
  shows "compute_privacy_risk mk_pipeline w permissions policy_text =
           Return (\<lparr>score = 25,
                    level = ''HIGH'',
                    reasons = [''No or insufficient privacy policy text available for analysis.''],
                    claims = [],
                    used_groups = group_permissions permissions\<rparr>, w)"
  using assms by (simp add: compute_privacy_risk_def)

theorem compute_privacy_risk_short_circuit_witness:
  "([] = ([] :: string) \<or> length (strip []) < 50) \<and>
   compute_privacy_risk (Raise (Exception ''ImportError''))
       \<lparr>ZS_CLASSIFIER = None, warnings = []\<rparr> [''android.permission.CAMERA''] [] =
     Return (\<lparr>score = 25,
              level = ''HIGH'',
              reasons = [''No or insufficient privacy policy text available for analysis.''],
              claims = [],
              used_groups = group_permissions [''android.permission.CAMERA'']\<rparr>,
             \<lparr>ZS_CLASSIFIER = None, warnings = []\<rparr>)"
proof -
  have h: "[] = ([] :: string) \<or> length (strip []) < 50" by simp
  show ?thesis
    using h compute_privacy_risk_short_circuit [OF h] by simp
qed

section \<open>Every call returns\<close>

lemma init_zero_shot_returns:
  "\<exists>ok w1. init_zero_shot mk_pipeline w = Return (ok, w1)"
  by (cases mk_pipeline) (auto simp: init_zero_shot_def try_except_def)

lemma extract_policy_claims_returns:
  "\<exists>clm w1. extract_policy_claims mk_pipeline w policy_text = Return (clm, w1)"
proof -
  obtain ok w1 where i: "init_zero_shot mk_pipeline w = Return (ok, w1)"
    using init_zero_shot_returns by blast
  show ?thesis
    by (simp add: extract_policy_claims_def i try_except_def split: option.split res.split)
qed

section \<open>Bounds on the risk points\<close>

lemma check_lower: "fst st \<le> fst (check used clm g k l wt st)" if "0 \<le> wt"
  using that by (simp add: check_def)

lemma breadth_lower: "fst st \<le> fst (breadth used st)"
  by (simp add: breadth_def Let_def)

lemma ads_bonus_lower: "fst st \<le> fst (ads_bonus used st)"
  by (simp add: ads_bonus_def)

lemma third_parties_penalty_lower: "fst st \<le> fst (third_parties_penalty clm st)"
  by (simp add: third_parties_penalty_def)

lemma security_penalty_lower: "fst st \<le> fst (security_penalty clm st)"
  by (simp add: security_penalty_def)

text \<open>Every step only adds to \<open>risk_points\<close>, so the sum is never negative.\<close>

lemma accumulate_nonneg: "0 \<le> fst (accumulate used clm)"
proof -
  let ?s0 = "breadth used (0, [])"
  let ?s1 = "check used clm ''location'' ''mentions_location'' ''location data'' 10 ?s0"
  let ?s2 = "check used clm ''contacts'' ''mentions_contacts'' ''contacts'' 10 ?s1"
  let ?s3 = "check used clm ''camera'' ''mentions_camera'' ''camera'' 10 ?s2"
  let ?s4 = "check used clm ''microphone'' ''mentions_microphone'' ''microphone/audio'' 10 ?s3"
  let ?s5 = "check used clm ''storage_media'' ''mentions_storage'' ''media/storage'' 7 ?s4"
  let ?s6 = "check used clm ''phone'' ''mentions_phone'' ''phone/call information'' 7 ?s5"
  let ?s7 = "check used clm ''ads_tracking'' ''mentions_ads_tracking''
               ''advertising IDs / tracking'' 7 ?s6"
  let ?s8 = "ads_bonus used ?s7"
  let ?s9 = "third_parties_penalty clm ?s8"
  have "0 \<le> fst ?s0" using breadth_lower [of "(0, [])" used] by simp
  also have "\<dots> \<le> fst ?s1" by (rule check_lower) simp
  also have "\<dots> \<le> fst ?s2" by (rule check_lower) simp
  also have "\<dots> \<le> fst ?s3" by (rule check_lower) simp
  also have "\<dots> \<le> fst ?s4" by (rule check_lower) simp
  also have "\<dots> \<le> fst ?s5" by (rule check_lower) simp
  also have "\<dots> \<le> fst ?s6" by (rule check_lower) simp
  also have "\<dots> \<le> fst ?s7" by (rule check_lower) simp
  also have "\<dots> \<le> fst ?s8" by (rule ads_bonus_lower)
  also have "\<dots> \<le> fst ?s9" by (rule third_parties_penalty_lower)
  also have "\<dots> \<le> fst (security_penalty clm ?s9)" by (rule security_penalty_lower)
  finally show ?thesis by (simp add: accumulate_def)
qed

lemma clamped_risk_points_bounds:
  "0 \<le> clamped_risk_points used clm \<and> clamped_risk_points used clm \<le> 90"
  using accumulate_nonneg [of used clm] by (simp add: clamped_risk_points_def Let_def)

text \<open>The result on a policy text that passes the length test, written out.\<close>

lemma compute_privacy_risk_long:
  assumes "\<not> (policy_text = [] \<or> length (strip policy_text) < 50)"
  shows "\<exists>clm w1.
           extract_policy_claims mk_pipeline w policy_text = Return (clm, w1) \<and>
           compute_privacy_risk mk_pipeline w permissions policy_text =
             Return
               (\<lparr>score = max 0 (100 - clamped_risk_points (group_permissions permissions) clm),
                 level =
                   (if max 0 (100 - clamped_risk_points (group_permissions permissions) clm) \<ge> 75
                    then ''LOW''
                    else if max 0 (100 - clamped_risk_points (group_permissions permissions) clm) \<ge> 50
                    then ''MEDIUM''
                    else ''HIGH''),
                 reasons =
                   (if snd (accumulate (group_permissions permissions) clm) = []
                    then [''No major mismatches or privacy concerns detected based on available information.'']
                    else snd (accumulate (group_permissions permissions) clm)),
                 claims = clm,
                 used_groups = group_permissions permissions\<rparr>, w1)"
proof -
  obtain clm w1 where e: "extract_policy_claims mk_pipeline w policy_text = Return (clm, w1)"
    using extract_policy_claims_returns by blast
  show ?thesis using assms
    by (simp add: compute_privacy_risk_def e Let_def)
qed

section \<open>Level and score\<close>

text \<open>
  Claim C2. Every call of \<open>compute_privacy_risk\<close> returns, and the level of the result is
  the threshold function of its score: LOW from 75 up, MEDIUM from 50 to 74, HIGH below
  50. At the four boundary scores: 75 is LOW, 74 is MEDIUM, 50 is MEDIUM, 49 is HIGH.
\<close>

theorem level_determined_by_score:
  "(\<exists>r w1. compute_privacy_risk mk_pipeline w permissions policy_text = Return (r, w1) \<and>
            level r = spec_level (score r)) \<and>
   spec_level 75 = ''LOW'' \<and> spec_level 74 = ''MEDIUM'' \<and>
   spec_level 50 = ''MEDIUM'' \<and> spec_level 49 = ''HIGH''"
proof -
  have "\<exists>r w1. compute_privacy_risk mk_pipeline w permissions policy_text = Return (r, w1) \<and>
                level r = spec_level (score r)"
  proof (cases "policy_text = [] \<or> length (strip policy_text) < 50")
    case True
    then show ?thesis
      by (simp add: compute_privacy_risk_def spec_level_def)
  next
    case False
    from compute_privacy_risk_long [OF False, of mk_pipeline w permissions]
    show ?thesis
      by (auto simp: spec_level_def)
  qed
  then show ?thesis
    by (simp add: spec_level_def)
qed

text \<open>
  Claim C3. The risk points after the clamp never exceed 90, and on every input the
  call returns a score between 0 and 100 with 100 minus the score at most 90.
\<close>

theorem risk_points_and_score_bounds:
  "clamped_risk_points used clm \<le> 90 \<and>
   (\<exists>r w1. compute_privacy_risk mk_pipeline w permissions policy_text = Return (r, w1) \<and>
            100 - score r \<le> 90 \<and> 0 \<le> score r \<and> score r \<le> 100)"
proof -
  have "\<exists>r w1. compute_privacy_risk mk_pipeline w permissions policy_text = Return (r, w1) \<and>
                100 - score r \<le> 90 \<and> 0 \<le> score r \<and> score r \<le> 100"
  proof (cases "policy_text = [] \<or> length (strip policy_text) < 50")
    case True
    then show ?thesis
      by (simp add: compute_privacy_risk_def)
  next
    case False
    from compute_privacy_risk_long [OF False, of mk_pipeline w permissions]
    obtain clm' w1 where
      r: "compute_privacy_risk mk_pipeline w permissions policy_text =
            Return
              (\<lparr>score = max 0 (100 - clamped_risk_points (group_permissions permissions) clm'),
                level =
                  (if max 0 (100 - clamped_risk_points (group_permissions permissions) clm') \<ge> 75
                   then ''LOW''
                   else if max 0 (100 - clamped_risk_points (group_permissions permissions) clm') \<ge> 50
                   then ''MEDIUM''
                   else ''HIGH''),
                reasons =
                  (if snd (accumulate (group_permissions permissions) clm') = []
                   then [''No major mismatches or privacy concerns detected based on available information.'']
                   else snd (accumulate (group_permissions permissions) clm')),
                claims = clm',
                used_groups = group_permissions permissions\<rparr>, w1)"
      by blast
    show ?thesis
      using clamped_risk_points_bounds [of "group_permissions permissions" clm']
      by (simp add: r)
  qed
  then show ?thesis
    using clamped_risk_points_bounds [of used clm] by simp
qed

text \<open>
  Claim C10. On a policy text whose stripped length is at least 50 the call returns a
  score of at least 10 and at most 100, equal to 100 minus the clamped risk points: the
  floor at 0 does not change it. On every input the returned score is 25 or lies
  between 10 and 100.
\<close>

theorem score_at_least_ten:
  "(length (strip policy_text) \<ge> 50 \<longrightarrow>
      (\<exists>clm r w1.
          extract_policy_claims mk_pipeline w policy_text = Return (clm, w1) \<and>
          compute_privacy_risk mk_pipeline w permissions policy_text = Return (r, w1) \<and>
          score r = 100 - clamped_risk_points (group_permissions permissions) clm \<and>
          10 \<le> score r \<and> score r \<le> 100)) \<and>
   (\<exists>r w1. compute_privacy_risk mk_pipeline w permissions policy_text = Return (r, w1) \<and>
            (score r = 25 \<or> (10 \<le> score r \<and> score r \<le> 100)))"
proof -
  have long:
    "\<exists>clm r w1.
        extract_policy_claims mk_pipeline w policy_text = Return (clm, w1) \<and>
        compute_privacy_risk mk_pipeline w permissions policy_text = Return (r, w1) \<and>
        score r = 100 - clamped_risk_points (group_permissions permissions) clm \<and>
        10 \<le> score r \<and> score r \<le> 100"
    if "\<not> (policy_text = [] \<or> length (strip policy_text) < 50)"
  proof -
    from compute_privacy_risk_long [OF that, of mk_pipeline w permissions]
    obtain clm w1 r where
      e: "extract_policy_claims mk_pipeline w policy_text = Return (clm, w1)" and
      c: "compute_privacy_risk mk_pipeline w permissions policy_text = Return (r, w1)" and
      s: "score r = max 0 (100 - clamped_risk_points (group_permissions permissions) clm)"
      by fastforce
    have "score r = 100 - clamped_risk_points (group_permissions permissions) clm \<and>
          10 \<le> score r \<and> score r \<le> 100"
      using clamped_risk_points_bounds [of "group_permissions permissions" clm] s by simp
    with e c show ?thesis by blast
  qed
  have first: "length (strip policy_text) \<ge> 50 \<longrightarrow>
      (\<exists>clm r w1.
          extract_policy_claims mk_pipeline w policy_text = Return (clm, w1) \<and>
          compute_privacy_risk mk_pipeline w permissions policy_text = Return (r, w1) \<and>
          score r = 100 - clamped_risk_points (group_permissions permissions) clm \<and>
          10 \<le> score r \<and> score r \<le> 100)"
  proof
    assume "length (strip policy_text) \<ge> 50"
    then have "\<not> (policy_text = [] \<or> length (strip policy_text) < 50)"
      by (auto simp: strip_def)
    then show "\<exists>clm r w1.
          extract_policy_claims mk_pipeline w policy_text = Return (clm, w1) \<and>
          compute_privacy_risk mk_pipeline w permissions policy_text = Return (r, w1) \<and>
          score r = 100 - clamped_risk_points (group_permissions permissions) clm \<and>
          10 \<le> score r \<and> score r \<le> 100"
      by (rule long)
  qed
  have second: "\<exists>r w1. compute_privacy_risk mk_pipeline w permissions policy_text = Return (r, w1) \<and>
            (score r = 25 \<or> (10 \<le> score r \<and> score r \<le> 100))"
  proof (cases "policy_text = [] \<or> length (strip policy_text) < 50")
    case True
    then show ?thesis by (simp add: compute_privacy_risk_def)
  next
    case False
    from long [OF False] show ?thesis by blast
  qed
  from first second show ?thesis by blast
qed

section \<open>The camera example\<close>

lemma camera_groups:
  "group_permissions [''android.permission.CAMERA''] =
     [(''location'', False), (''contacts'', False), (''camera'', True),
      (''microphone'', False), (''storage_media'', False), (''phone'', False),
      (''ads_tracking'', False)]"
  by code_simp

lemma sixty_x_claims:
  "keyword_extract_claims (replicate 60 CHR ''x'') =
     [(''mentions_location'', False), (''mentions_contacts'', False),
      (''mentions_camera'', False), (''mentions_microphone'', False),
      (''mentions_storage'', False), (''mentions_phone'', False),
      (''mentions_ads_tracking'', False), (''mentions_third_parties'', False),
      (''mentions_security'', False)]"
  by code_simp

lemma sixty_x_length: "length (strip (replicate 60 CHR ''x'')) = 60"
  by code_simp

lemma sixty_x_nonempty: "replicate 60 CHR ''x'' \<noteq> []"
  by code_simp

text \<open>
  With no cached classifier and a pipeline construction that raises, a text of 20 or
  more characters goes to the keyword strategy and the failure is logged.
\<close>

lemma extract_policy_claims_unavailable:
  assumes "ZS_CLASSIFIER w = None" and "\<not> (policy_text = [] \<or> length (strip policy_text) < 20)"
  shows "extract_policy_claims (Raise e) w policy_text =
           Return (keyword_extract_claims policy_text,
                   w\<lparr>ZS_CLASSIFIER := None,
                     warnings := warnings w @ [''Zero-shot init failed: '' @ str_exn e]\<rparr>)"
  using assms by (simp add: extract_policy_claims_def init_zero_shot_def try_except_def)

lemma camera_accumulate:
  "accumulate (group_permissions [''android.permission.CAMERA''])
              (keyword_extract_claims (replicate 60 CHR ''x'')) =
     (28, [''App accesses at least one type of sensitive data.'',
           ''App accesses camera, but the privacy policy does not clearly mention it.'',
           ''Privacy policy does not clearly describe sharing with third parties or partners.'',
           ''Privacy policy does not mention data security or protection measures clearly.''])"
  unfolding camera_groups sixty_x_claims by code_simp

text \<open>
  Claim C4. For the single permission \<open>android.permission.CAMERA\<close> and a policy text of
  sixty \<open>x\<close>, scored by the keyword strategy (no classifier cached, the pipeline cannot be
  built), the result has the camera group in use, the camera mismatch among the reasons,
  the third-party and security penalties, score 100 - (5 + 10 + 8 + 5) = 72 and level
  MEDIUM.
\<close>

theorem camera_example:
  "compute_privacy_risk (Raise e) \<lparr>ZS_CLASSIFIER = None, warnings = lg\<rparr>
       [''android.permission.CAMERA''] (replicate 60 CHR ''x'') =
   Return (\<lparr>score = 100 - (5 + 10 + 8 + 5),
            level = ''MEDIUM'',
            reasons =
              [''App accesses at least one type of sensitive data.'',
               ''App accesses camera, but the privacy policy does not clearly mention it.'',
               ''Privacy policy does not clearly describe sharing with third parties or partners.'',
               ''Privacy policy does not mention data security or protection measures clearly.''],
            claims =
              [(''mentions_location'', False), (''mentions_contacts'', False),
               (''mentions_camera'', False), (''mentions_microphone'', False),
               (''mentions_storage'', False), (''mentions_phone'', False),
               (''mentions_ads_tracking'', False), (''mentions_third_parties'', False),
               (''mentions_security'', False)],
            used_groups =
              [(''location'', False), (''contacts'', False), (''camera'', True),
               (''microphone'', False), (''storage_media'', False), (''phone'', False),
               (''ads_tracking'', False)]\<rparr>,
           \<lparr>ZS_CLASSIFIER = None,
            warnings = lg @ [''Zero-shot init failed: '' @ str_exn e]\<rparr>) \<and>
   100 - (5 + 10 + 8 + 5) = (72 :: int)"
proof -
  have long20: "\<not> (replicate 60 CHR ''x'' = [] \<or> length (strip (replicate 60 CHR ''x'')) < 20)"
    and long50: "\<not> (replicate 60 CHR ''x'' = [] \<or> length (strip (replicate 60 CHR ''x'')) < 50)"
    using sixty_x_nonempty by (simp_all add: sixty_x_length)
  have ex: "extract_policy_claims (Raise e) \<lparr>ZS_CLASSIFIER = None, warnings = lg\<rparr>
              (replicate 60 CHR ''x'') =
            Return (keyword_extract_claims (replicate 60 CHR ''x''),
                    \<lparr>ZS_CLASSIFIER = None,
                     warnings = lg @ [''Zero-shot init failed: '' @ str_exn e]\<rparr>)"
    using extract_policy_claims_unavailable
            [OF _ long20, of "\<lparr>ZS_CLASSIFIER = None, warnings = lg\<rparr>" e]
    by simp
  show ?thesis
    using long50
    by (simp add: compute_privacy_risk_def ex Let_def clamped_risk_points_def camera_accumulate)
       (simp add: camera_groups sixty_x_claims)
qed

theorem score_at_least_ten_witness:
  "50 \<le> length (strip (replicate 60 CHR ''x'')) \<and>
   (\<exists>clm r w1.
       extract_policy_claims (Raise (Exception ''ImportError''))
           \<lparr>ZS_CLASSIFIER = None, warnings = []\<rparr> (replicate 60 CHR ''x'') = Return (clm, w1) \<and>
       compute_privacy_risk (Raise (Exception ''ImportError''))
           \<lparr>ZS_CLASSIFIER = None, warnings = []\<rparr> [''android.permission.CAMERA'']
           (replicate 60 CHR ''x'') = Return (r, w1) \<and>
       score r = 100 - clamped_risk_points (group_permissions [''android.permission.CAMERA'']) clm \<and>
       10 \<le> score r \<and> score r \<le> 100)"
proof -
  have h: "50 \<le> length (strip (replicate 60 CHR ''x''))"
    by (simp add: sixty_x_length)
  from score_at_least_ten
         [of "replicate 60 CHR ''x''" "Raise (Exception ''ImportError'')"
             "\<lparr>ZS_CLASSIFIER = None, warnings = []\<rparr>" "[''android.permission.CAMERA'']"]
       h
  show ?thesis by blast
qed

text \<open>Both ends of the interval are scores of some call.\<close>

lemma all_groups:
  "group_permissions
     [''android.permission.ACCESS_FINE_LOCATION'', ''android.permission.READ_CONTACTS'',
      ''android.permission.CAMERA'', ''android.permission.RECORD_AUDIO'',
      ''android.permission.READ_EXTERNAL_STORAGE'', ''android.permission.READ_PHONE_STATE'',
      ''com.google.android.gms.permission.AD_ID''] =
     [(''location'', True), (''contacts'', True), (''camera'', True),
      (''microphone'', True), (''storage_media'', True), (''phone'', True),
      (''ads_tracking'', True)]"
  by code_simp

lemma all_groups_accumulate:
  "fst (accumulate
          [(''location'', True), (''contacts'', True), (''camera'', True),
           (''microphone'', True), (''storage_media'', True), (''phone'', True),
           (''ads_tracking'', True)]
          (keyword_extract_claims (replicate 60 CHR ''x''))) = 99"
  unfolding sixty_x_claims by code_simp

lemma score_ten_attained:
  "\<exists>r w1.
     compute_privacy_risk (Raise e) \<lparr>ZS_CLASSIFIER = None, warnings = []\<rparr>
       [''android.permission.ACCESS_FINE_LOCATION'', ''android.permission.READ_CONTACTS'',
        ''android.permission.CAMERA'', ''android.permission.RECORD_AUDIO'',
        ''android.permission.READ_EXTERNAL_STORAGE'', ''android.permission.READ_PHONE_STATE'',
        ''com.google.android.gms.permission.AD_ID'']
       (replicate 60 CHR ''x'') = Return (r, w1) \<and> score r = 10"
proof -
  have long20: "\<not> (replicate 60 CHR ''x'' = [] \<or> length (strip (replicate 60 CHR ''x'')) < 20)"
    and long50: "\<not> (replicate 60 CHR ''x'' = [] \<or> length (strip (replicate 60 CHR ''x'')) < 50)"
    using sixty_x_nonempty by (simp_all add: sixty_x_length)
  have ex: "extract_policy_claims (Raise e) \<lparr>ZS_CLASSIFIER = None, warnings = []\<rparr>
              (replicate 60 CHR ''x'') =
            Return (keyword_extract_claims (replicate 60 CHR ''x''),
                    \<lparr>ZS_CLASSIFIER = None, warnings = [''Zero-shot init failed: '' @ str_exn e]\<rparr>)"
    using extract_policy_claims_unavailable
            [OF _ long20, of "\<lparr>ZS_CLASSIFIER = None, warnings = []\<rparr>" e]
    by simp
  show ?thesis
    using long50
    by (simp add: compute_privacy_risk_def ex Let_def clamped_risk_points_def all_groups
          all_groups_accumulate)
qed

lemma partners_text_length:
  "length (strip ''We share data with partners and keep it secure at all times.'') = 60"
  by code_simp

lemma partners_text_accumulate:
  "accumulate (group_permissions [])
     (keyword_extract_claims ''We share data with partners and keep it secure at all times.'') =
   (0, [])"
  by code_simp

lemma score_hundred_attained:
  "\<exists>r w1.
     compute_privacy_risk (Raise e) \<lparr>ZS_CLASSIFIER = None, warnings = []\<rparr> []
       ''We share data with partners and keep it secure at all times.'' = Return (r, w1) \<and>
     score r = 100"
proof -
  let ?t = "''We share data with partners and keep it secure at all times.''"
  have long20: "\<not> (?t = [] \<or> length (strip ?t) < 20)"
    and long50: "\<not> (?t = [] \<or> length (strip ?t) < 50)"
    by (simp_all only: partners_text_length) simp_all
  have ex: "extract_policy_claims (Raise e) \<lparr>ZS_CLASSIFIER = None, warnings = []\<rparr> ?t =
            Return (keyword_extract_claims ?t,
                    \<lparr>ZS_CLASSIFIER = None, warnings = [''Zero-shot init failed: '' @ str_exn e]\<rparr>)"
    using extract_policy_claims_unavailable
            [OF _ long20, of "\<lparr>ZS_CLASSIFIER = None, warnings = []\<rparr>" e]
    by simp
  show ?thesis
    using long50
    by (simp only: compute_privacy_risk_def ex Let_def clamped_risk_points_def
          partners_text_accumulate if_False res.case prod.case fst_conv snd_conv)
       simp
qed

section \<open>Fallback to the keyword strategy\<close>

lemma extract_short:
  "length (strip t) < 20 \<Longrightarrow>
   extract_policy_claims mk_pipeline w t = Return (keyword_extract_claims t, w)"
  by (simp add: extract_policy_claims_def)

lemma extract_no_backend:
  "backend mk_pipeline w = None \<Longrightarrow>
   \<exists>w1. extract_policy_claims mk_pipeline w t = Return (keyword_extract_claims t, w1)"
  by (cases mk_pipeline)
     (auto simp: backend_def extract_policy_claims_def init_zero_shot_def try_except_def
           split: option.splits)

text \<open>
  With a classifier at hand and a text of 20 characters or more, the claims are those of
  the classifier's answer, or the keyword claims when the classifier raises.
\<close>

lemma extract_backend:
  assumes "backend mk_pipeline w = Some c" and "\<not> (t = [] \<or> length (strip t) < 20)"
  shows "\<exists>w1. extract_policy_claims mk_pipeline w t =
           Return (case c t candidate_labels of
                     Raise e \<Rightarrow> keyword_extract_claims t
                   | Return r \<Rightarrow> zero_shot_claims r, w1)"
  using assms
  by (cases mk_pipeline; cases "c t candidate_labels")
     (auto simp: backend_def extract_policy_claims_def init_zero_shot_def try_except_def
           split: option.splits)

text \<open>
  Claim C8. \<open>extract_policy_claims\<close> always returns, never raises. Its claims are either
  exactly the keyword claims of the text or exactly the claims read off the answer of the
  classifier in use. When no classifier can be had (none cached, and building the pipeline
  raises or yields nothing) the claims are the keyword claims; when the classifier in use
  raises on the text the claims are the keyword claims; and a text whose stripped length
  is below 20 gets the keyword claims with the state untouched.
\<close>

theorem extract_policy_claims_fallback:
  "(\<exists>clm w1. extract_policy_claims mk_pipeline w t = Return (clm, w1) \<and>
       (clm = keyword_extract_claims t \<or>
        (\<exists>c r. backend mk_pipeline w = Some c \<and> c t candidate_labels = Return r \<and>
               clm = zero_shot_claims r))) \<and>
   (backend mk_pipeline w = None \<longrightarrow>
      (\<exists>w1. extract_policy_claims mk_pipeline w t = Return (keyword_extract_claims t, w1))) \<and>
   (backend mk_pipeline w = Some c \<and> c t candidate_labels = Raise e \<longrightarrow>
      (\<exists>w1. extract_policy_claims mk_pipeline w t = Return (keyword_extract_claims t, w1))) \<and>
   (length (strip t) < 20 \<longrightarrow>
      extract_policy_claims mk_pipeline w t = Return (keyword_extract_claims t, w))"
proof (intro conjI impI)
  show "\<exists>clm w1. extract_policy_claims mk_pipeline w t = Return (clm, w1) \<and>
       (clm = keyword_extract_claims t \<or>
        (\<exists>c r. backend mk_pipeline w = Some c \<and> c t candidate_labels = Return r \<and>
               clm = zero_shot_claims r))"
  proof (cases "t = [] \<or> length (strip t) < 20")
    case True
    then have "length (strip t) < 20" by (auto simp: strip_def)
    from extract_short [OF this] show ?thesis by blast
  next
    case long: False
    show ?thesis
    proof (cases "backend mk_pipeline w")
      case None
      from extract_no_backend [OF this] show ?thesis by blast
    next
      case (Some c)
      from extract_backend [OF Some long] obtain w1 where
        e: "extract_policy_claims mk_pipeline w t =
           Return (case c t candidate_labels of
                     Raise e \<Rightarrow> keyword_extract_claims t
                   | Return r \<Rightarrow> zero_shot_claims r, w1)" by blast
      show ?thesis
      proof (cases "c t candidate_labels")
        case (Raise x)
        with e show ?thesis by simp
      next
        case (Return r)
        with e have "extract_policy_claims mk_pipeline w t = Return (zero_shot_claims r, w1)"
          by simp
        with Some Return show ?thesis by blast
      qed
    qed
  qed
next
  assume "backend mk_pipeline w = None"
  then show "\<exists>w1. extract_policy_claims mk_pipeline w t = Return (keyword_extract_claims t, w1)"
    by (rule extract_no_backend)
next
  assume a: "backend mk_pipeline w = Some c \<and> c t candidate_labels = Raise e"
  show "\<exists>w1. extract_policy_claims mk_pipeline w t = Return (keyword_extract_claims t, w1)"
  proof (cases "t = [] \<or> length (strip t) < 20")
    case True
    then have "length (strip t) < 20" by (auto simp: strip_def)
    from extract_short [OF this] show ?thesis by blast
  next
    case False
    from a extract_backend [OF _ False, of mk_pipeline w c] show ?thesis by simp
  qed
next
  assume "length (strip t) < 20"
  then show "extract_policy_claims mk_pipeline w t = Return (keyword_extract_claims t, w)"
    by (rule extract_short)
qed

theorem extract_policy_claims_fallback_witness:
  "backend (Raise (Exception ''ImportError'')) \<lparr>ZS_CLASSIFIER = None, warnings = []\<rparr> = None \<and>
   (\<exists>w1. extract_policy_claims (Raise (Exception ''ImportError''))
            \<lparr>ZS_CLASSIFIER = None, warnings = []\<rparr> (replicate 60 CHR ''x'') =
          Return (keyword_extract_claims (replicate 60 CHR ''x''), w1)) \<and>
   backend (Raise (Exception ''ImportError''))
       \<lparr>ZS_CLASSIFIER = Some (\<lambda>text labels. Raise (Exception ''RuntimeError'')), warnings = []\<rparr> =
     Some (\<lambda>text labels. Raise (Exception ''RuntimeError'')) \<and>
   (\<exists>w1. extract_policy_claims (Raise (Exception ''ImportError''))
            \<lparr>ZS_CLASSIFIER = Some (\<lambda>text labels. Raise (Exception ''RuntimeError'')),
             warnings = []\<rparr> (replicate 60 CHR ''x'') =
          Return (keyword_extract_claims (replicate 60 CHR ''x''), w1)) \<and>
   length (strip ''gps'') < 20 \<and>
   extract_policy_claims (Raise (Exception ''ImportError''))
       \<lparr>ZS_CLASSIFIER = None, warnings = []\<rparr> ''gps'' =
     Return (keyword_extract_claims ''gps'', \<lparr>ZS_CLASSIFIER = None, warnings = []\<rparr>)"
proof -
  let ?mk = "Raise (Exception ''ImportError'') :: classifier option res"
  let ?w0 = "\<lparr>ZS_CLASSIFIER = None, warnings = []\<rparr>"
  let ?c = "(\<lambda>text labels. Raise (Exception ''RuntimeError'')) :: classifier"
  let ?w1 = "\<lparr>ZS_CLASSIFIER = Some ?c, warnings = []\<rparr>"
  have h1: "backend ?mk ?w0 = None"
    by (simp add: backend_def)
  have h2: "backend ?mk ?w1 = Some ?c \<and>
            ?c (replicate 60 CHR ''x'') candidate_labels = Raise (Exception ''RuntimeError'')"
    by (simp add: backend_def)
  have h3: "length (strip ''gps'') < 20"
    by code_simp
  from extract_policy_claims_fallback [of ?mk ?w0 "replicate 60 CHR ''x''"] h1
  have a: "\<exists>w1. extract_policy_claims ?mk ?w0 (replicate 60 CHR ''x'') =
          Return (keyword_extract_claims (replicate 60 CHR ''x''), w1)"
    by blast
  from extract_policy_claims_fallback
         [of ?mk ?w1 "replicate 60 CHR ''x''" ?c "Exception ''RuntimeError''"] h2
  have b: "\<exists>w1. extract_policy_claims ?mk ?w1 (replicate 60 CHR ''x'') =
          Return (keyword_extract_claims (replicate 60 CHR ''x''), w1)"
    by blast
  from extract_policy_claims_fallback [of ?mk ?w0 "''gps''"] h3
  have c: "extract_policy_claims ?mk ?w0 ''gps'' = Return (keyword_extract_claims ''gps'', ?w0)"
    by blast
  from h1 h2 h3 a b c show ?thesis by blast
qed

section \<open>Grouping does not depend on the order of the permissions\<close>

text \<open>\<open>split\<close> never returns an empty list, so \<open>[-1]\<close> never fails.\<close>

lemma split_acc_nonempty: "split_acc d acc s \<noteq> []"
  by (induction s arbitrary: acc) auto

lemma split_on_nonempty: "split_on d s \<noteq> []"
  by (simp add: split_on_def split_acc_nonempty)

text \<open>
  Two association lists with the same keys in the same order, none repeated, and the same
  lookups are the same list.
\<close>

lemma alist_eqI:
  "map fst xs = map fst ys \<Longrightarrow> distinct (map fst xs) \<Longrightarrow> map_of xs = map_of ys \<Longrightarrow> xs = ys"
proof (induction xs arbitrary: ys)
  case Nil
  then show ?case by simp
next
  case (Cons x xs)
  from Cons.prems(1) obtain y ys' where ys: "ys = y # ys'" by (cases ys) auto
  obtain k v where x: "x = (k, v)" by (cases x)
  obtain k' v' where y: "y = (k', v')" by (cases y)
  from Cons.prems(1) have k: "k' = k" and keys: "map fst xs = map fst ys'"
    by (simp_all add: ys x y)
  from Cons.prems(2) have nin: "k \<notin> set (map fst xs)" and d: "distinct (map fst xs)"
    by (simp_all add: x)
  from Cons.prems(3) have "map_of (x # xs) k = map_of ys k" by (rule fun_cong)
  then have v: "v' = v" by (simp add: x y ys k)
  have "map_of xs = map_of ys'"
  proof
    fix j
    show "map_of xs j = map_of ys' j"
    proof (cases "j = k")
      case True
      have a: "k \<notin> fst ` set xs" using nin by simp
      have b: "k \<notin> fst ` set ys'" using nin unfolding keys by simp
      have "map_of xs k = None" "map_of ys' k = None"
        using a b by (simp_all add: map_of_eq_None_iff)
      then show ?thesis using True by simp
    next
      case False
      from Cons.prems(3) have "map_of (x # xs) j = map_of ys j" by (rule fun_cong)
      then show ?thesis using False by (simp add: x y ys k)
    qed
  qed
  with Cons.IH [OF keys d] have "xs = ys'" by simp
  then show ?case by (simp add: x y ys k v)
qed

lemma map_of_all_False:
  "map_of (map (\<lambda>k. (k, False)) ks) k = (if k \<in> set ks then Some False else None)"
  by (induction ks) auto

lemma mark_groups_keys:
  "fst ` set gs \<subseteq> fst ` set used \<Longrightarrow> map fst (mark_groups s gs used) = map fst used"
proof (induction gs arbitrary: used)
  case Nil
  then show ?case by simp
next
  case (Cons g gs)
  obtain k sfx where g: "g = (k, sfx)" by (cases g)
  from Cons.prems g have kin: "k \<in> fst ` set used" and sub: "fst ` set gs \<subseteq> fst ` set used"
    by auto
  have keys: "map fst (AList.update k True used) = map fst used"
    using kin by (simp add: update_keys)
  have sub': "fst ` set gs \<subseteq> fst ` set (AList.update k True used)"
    using sub by (auto simp: dom_update)
  show ?case
    using Cons.IH [OF sub] Cons.IH [OF sub'] keys by (simp add: g)
qed

lemma map_of_mark_groups:
  "map_of (mark_groups s gs used) k =
     (if list_ex (\<lambda>g. fst g = k \<and> suffix_matches s (snd g)) gs then Some True else map_of used k)"
proof (induction gs arbitrary: used)
  case Nil
  then show ?case by simp
next
  case (Cons g gs)
  obtain k' sfx where g: "g = (k', sfx)" by (cases g)
  show ?case
    by (simp add: g Cons.IH update_conv')
qed

lemma scan_permissions_keys:
  "fst ` set SENSITIVE_PERMISSION_GROUPS \<subseteq> fst ` set used \<Longrightarrow>
   map fst (scan_permissions ps used) = map fst used"
proof (induction ps arbitrary: used)
  case Nil
  then show ?case by simp
next
  case (Cons p ps)
  have k: "map fst (mark_groups (perm_suffix p) SENSITIVE_PERMISSION_GROUPS used) = map fst used"
    using Cons.prems by (rule mark_groups_keys)
  then have "fst ` set (mark_groups (perm_suffix p) SENSITIVE_PERMISSION_GROUPS used) = fst ` set used"
    by (metis set_map)
  with Cons.prems Cons.IH [of "mark_groups (perm_suffix p) SENSITIVE_PERMISSION_GROUPS used"] k
  show ?case by simp
qed

lemma map_of_scan_permissions:
  "map_of (scan_permissions ps used) k =
     (if in_group ps k then Some True else map_of used k)"
proof (induction ps arbitrary: used)
  case Nil
  then show ?case by (simp add: in_group_def)
next
  case (Cons p ps)
  show ?case
    by (simp add: Cons.IH map_of_mark_groups in_group_def)
qed

lemma groups_distinct: "distinct (map fst SENSITIVE_PERMISSION_GROUPS)"
  by (simp add: SENSITIVE_PERMISSION_GROUPS_def)

lemma group_permissions_keys:
  "map fst (group_permissions ps) = map fst SENSITIVE_PERMISSION_GROUPS"
proof -
  have "map fst (group_permissions ps) = map fst (map (\<lambda>k. (k, False)) (map fst SENSITIVE_PERMISSION_GROUPS))"
    unfolding group_permissions_def
    by (rule scan_permissions_keys) (simp add: image_image)
  then show ?thesis by (simp add: comp_def)
qed

lemma map_of_group_permissions:
  "map_of (group_permissions ps) k =
     (if k \<in> fst ` set SENSITIVE_PERMISSION_GROUPS then Some (in_group ps k) else None)"
proof -
  have init: "map_of (map ((\<lambda>k. (k, False)) \<circ> fst) SENSITIVE_PERMISSION_GROUPS) k =
       (if k \<in> fst ` set SENSITIVE_PERMISSION_GROUPS then Some False else None)"
    using map_of_all_False [of "map fst SENSITIVE_PERMISSION_GROUPS" k] by simp
  have "in_group ps k \<Longrightarrow> k \<in> fst ` set SENSITIVE_PERMISSION_GROUPS"
    by (auto simp: in_group_def list_ex_iff)
  then show ?thesis
    by (auto simp: group_permissions_def map_of_scan_permissions init)
qed

lemma in_group_set: "in_group ps k \<longleftrightarrow> (\<exists>p\<in>set ps. in_group [p] k)"
  by (auto simp: in_group_def list_ex_iff)

lemma group_permissions_cong:
  assumes "\<And>k. in_group xs k = in_group ys k"
  shows "group_permissions xs = group_permissions ys"
proof (rule alist_eqI)
  show "map fst (group_permissions xs) = map fst (group_permissions ys)"
    by (simp add: group_permissions_keys)
  show "distinct (map fst (group_permissions xs))"
    by (simp add: group_permissions_keys groups_distinct)
  show "map_of (group_permissions xs) = map_of (group_permissions ys)"
    by (intro ext) (simp add: map_of_group_permissions assms)
qed

lemma unrecognized_in_group: "unrecognized p \<Longrightarrow> \<not> in_group [p] k"
  by (auto simp: unrecognized_def in_group_def list_all_iff list_ex_iff)

text \<open>
  Claim C7. \<open>group_permissions\<close> gives the same mapping on every permutation of a
  permission list. It is a function, so a second run on the same list gives the same
  mapping. A permission that matches no registered suffix is accepted and changes
  nothing: with it or without it the mapping is the same, and alone it leaves every
  group unused.
\<close>

theorem group_permissions_order_independent:
  "(mset xs = mset ys \<longrightarrow> group_permissions xs = group_permissions ys) \<and>
   (unrecognized p \<longrightarrow>
      group_permissions (xs @ p # ys) = group_permissions (xs @ ys) \<and>
      group_permissions [p] = map (\<lambda>k. (k, False)) (map fst SENSITIVE_PERMISSION_GROUPS))"
proof (intro conjI impI)
  assume "mset xs = mset ys"
  then have "set xs = set ys" by (rule mset_eq_setD)
  then have "in_group xs k = in_group ys k" for k
    using in_group_set [of xs k] in_group_set [of ys k] by simp
  then show "group_permissions xs = group_permissions ys"
    by (rule group_permissions_cong)
next
  assume u: "unrecognized p"
  have "in_group (xs @ p # ys) k = in_group (xs @ ys) k" for k
    using in_group_set [of "xs @ p # ys" k] in_group_set [of "xs @ ys" k]
      unrecognized_in_group [OF u, of k] by auto
  then show "group_permissions (xs @ p # ys) = group_permissions (xs @ ys)"
    by (rule group_permissions_cong)
  have "in_group [p] k = in_group [] k" for k
    using unrecognized_in_group [OF u, of k] by (simp add: in_group_def)
  then have "group_permissions [p] = group_permissions []"
    by (rule group_permissions_cong)
  then show "group_permissions [p] = map (\<lambda>k. (k, False)) (map fst SENSITIVE_PERMISSION_GROUPS)"
    by (simp add: group_permissions_def)
qed

lemma internet_unrecognized: "unrecognized ''android.permission.INTERNET''"
  by code_simp

theorem group_permissions_order_independent_witness:
  "mset [''android.permission.CAMERA'', ''android.permission.RECORD_AUDIO''] =
     mset [''android.permission.RECORD_AUDIO'', ''android.permission.CAMERA''] \<and>
   group_permissions [''android.permission.CAMERA'', ''android.permission.RECORD_AUDIO''] =
     group_permissions [''android.permission.RECORD_AUDIO'', ''android.permission.CAMERA''] \<and>
   unrecognized ''android.permission.INTERNET'' \<and>
   group_permissions ([''android.permission.CAMERA''] @ ''android.permission.INTERNET'' #
                      [''android.permission.RECORD_AUDIO'']) =
     group_permissions ([''android.permission.CAMERA''] @ [''android.permission.RECORD_AUDIO''])"
proof -
  have h1: "mset [''android.permission.CAMERA'', ''android.permission.RECORD_AUDIO''] =
            mset [''android.permission.RECORD_AUDIO'', ''android.permission.CAMERA'']"
    by (simp add: add_mset_commute)
  have h2: "unrecognized ''android.permission.INTERNET''"
    by (rule internet_unrecognized)
  from group_permissions_order_independent
         [of "[''android.permission.CAMERA'', ''android.permission.RECORD_AUDIO'']"
             "[''android.permission.RECORD_AUDIO'', ''android.permission.CAMERA'']"
             "''android.permission.INTERNET''"]
       h1
  have a: "group_permissions [''android.permission.CAMERA'', ''android.permission.RECORD_AUDIO''] =
     group_permissions [''android.permission.RECORD_AUDIO'', ''android.permission.CAMERA'']"
    by blast
  from group_permissions_order_independent
         [of "[''android.permission.CAMERA'']" "[''android.permission.RECORD_AUDIO'']"
             "''android.permission.INTERNET''"]
       h2
  have b: "group_permissions ([''android.permission.CAMERA''] @ ''android.permission.INTERNET'' #
                      [''android.permission.RECORD_AUDIO'']) =
     group_permissions ([''android.permission.CAMERA''] @ [''android.permission.RECORD_AUDIO''])"
    by blast
  from h1 h2 a b show ?thesis by blast
qed

section \<open>Classification of domains\<close>

text \<open>\<open>p in s\<close> holds exactly when \<open>p\<close> occurs somewhere inside \<open>s\<close>.\<close>

lemma startswith_iff: "startswith s p \<longleftrightarrow> (\<exists>b. s = p @ b)"
  by (induction s p rule: startswith.induct) auto

lemma contains_iff: "contains s p \<longleftrightarrow> (\<exists>a b. s = a @ p @ b)"
proof (induction s)
  case Nil
  then show ?case by simp
next
  case (Cons c cs)
  show ?case
  proof
    assume "contains (c # cs) p"
    then consider "startswith (c # cs) p" | "contains cs p" by auto
    then show "\<exists>a b. c # cs = a @ p @ b"
    proof cases
      case 1
      then obtain b where "c # cs = p @ b" using startswith_iff by blast
      then have "c # cs = [] @ p @ b" by simp
      then show ?thesis by blast
    next
      case 2
      then obtain a b where "cs = a @ p @ b" using Cons.IH by blast
      then have "c # cs = (c # a) @ p @ b" by simp
      then show ?thesis by blast
    qed
  next
    assume "\<exists>a b. c # cs = a @ p @ b"
    then obtain a b where ab: "c # cs = a @ p @ b" by blast
    show "contains (c # cs) p"
    proof (cases a)
      case Nil
      with ab have "startswith (c # cs) p" using startswith_iff by auto
      then show ?thesis by simp
    next
      case (Cons a0 a')
      with ab have "cs = a' @ p @ b" by simp
      then have "contains cs p" using Cons.IH by blast
      then show ?thesis by simp
    qed
  qed
qed

lemma first_match_find:
  "first_match pats d = map_option snd (List.find (\<lambda>e. contains d (fst e)) pats)"
  by (induction pats) auto

lemma first_match_None: "first_match pats d = None \<longleftrightarrow> (\<forall>e\<in>set pats. \<not> contains d (fst e))"
  by (induction pats) (auto split: if_splits)

lemma update_new: "k \<notin> fst ` set al \<Longrightarrow> AList.update k v al = al @ [(k, v)]"
  by (induction al) auto

lemma sum_bump:
  "sum_list (map snd (AList.update k (dict_get cc k 0 + 1) cc)) = sum_list (map snd cc) + (1::int)"
  by (induction cc) (auto simp: dict_get_def)

lemma classify_loop_tracker_domains:
  "distinct ds \<Longrightarrow> set ds \<inter> fst ` set (fst st) = {} \<Longrightarrow>
   fst (classify_loop pats ds st) =
     fst st @ map (\<lambda>d. (d, the (first_match pats d))) (filter (counted pats) ds)"
proof (induction ds arbitrary: st)
  case Nil
  then show ?case by simp
next
  case (Cons d ds)
  from Cons.prems have d: "distinct ds" and dn: "d \<notin> set ds" and dk: "d \<notin> fst ` set (fst st)"
    and dis: "set ds \<inter> fst ` set (fst st) = {}" by auto
  show ?case
  proof (cases "counted pats d")
    case False
    then show ?thesis using Cons.IH [OF d dis]
      by (auto simp: counted_def split: option.splits)
  next
    case True
    then obtain c where c: "first_match pats d = Some c" "c \<noteq> []"
      by (auto simp: counted_def split: option.splits)
    let ?st = "(AList.update d c (fst st), AList.update c (dict_get (snd st) c 0 + 1) (snd st))"
    have "set ds \<inter> fst ` set (fst ?st) = {}"
      using dis dn by (auto simp: dom_update)
    from Cons.IH [OF d this] show ?thesis
      using c True dk by (simp add: update_new)
  qed
qed

lemma classify_loop_category_counts:
  "sum_list (map snd (snd (classify_loop pats ds st))) =
     sum_list (map snd (snd st)) + int (length (filter (counted pats) ds))"
proof (induction ds arbitrary: st)
  case Nil
  then show ?case by simp
next
  case (Cons d ds)
  show ?case
    by (auto simp: Cons.IH counted_def sum_bump split: option.splits)
qed

lemma classify_loop_counts_distinct:
  "distinct (map fst (snd st)) \<Longrightarrow> distinct (map fst (snd (classify_loop pats ds st)))"
proof (induction ds arbitrary: st)
  case Nil
  then show ?case by simp
next
  case (Cons d ds)
  then show ?case
    by (auto simp: distinct_update split: option.splits)
qed

lemma tracker_domains_eq:
  "distinct ds \<Longrightarrow>
   tracker_domains (classify_domains pats ds) =
     map (\<lambda>d. (d, the (first_match pats d))) (filter (counted pats) ds)"
  using classify_loop_tracker_domains [of ds "([], [])" pats]
  by (simp add: classify_domains_def Let_def)

text \<open>
  Claim C9. For a set of domains (a list without repetition) and any tracker list, the
  summary has: \<open>num_trackers\<close> equal to the number of entries, and of keys, of
  \<open>tracker_domains\<close>; \<open>num_domains\<close> equal to the size of the set; \<open>num_trackers\<close> at
  most \<open>num_domains\<close>; every key of \<open>tracker_domains\<close> among the domains; the categories
  of \<open>category_counts\<close> not repeated and its counts summing to \<open>num_trackers\<close>.
\<close>

theorem classify_domains_invariants:
  assumes "distinct ds"
  shows "num_trackers (classify_domains pats ds) = int (length (tracker_domains (classify_domains pats ds))) \<and>
         num_trackers (classify_domains pats ds) = int (card (dom (map_of (tracker_domains (classify_domains pats ds))))) \<and>
         num_domains (classify_domains pats ds) = int (card (set ds)) \<and>
         num_trackers (classify_domains pats ds) \<le> num_domains (classify_domains pats ds) \<and>
         fst ` set (tracker_domains (classify_domains pats ds)) \<subseteq> set ds \<and>
         distinct (map fst (category_counts (classify_domains pats ds))) \<and>
         sum_list (map snd (category_counts (classify_domains pats ds))) = num_trackers (classify_domains pats ds)"
proof -
  let ?r = "classify_domains pats ds"
  have td: "tracker_domains ?r = map (\<lambda>d. (d, the (first_match pats d))) (filter (counted pats) ds)"
    using assms by (rule tracker_domains_eq)
  have keys: "map fst (tracker_domains ?r) = filter (counted pats) ds"
    by (simp add: td comp_def)
  have nt: "num_trackers ?r = int (length (tracker_domains ?r))"
    by (simp add: classify_domains_def Let_def)
  have dk: "distinct (map fst (tracker_domains ?r))"
    using assms by (simp add: keys)
  have card: "card (dom (map_of (tracker_domains ?r))) = length (tracker_domains ?r)"
    using distinct_card [OF dk] by (simp add: dom_map_of_conv_image_fst)
  have nd: "num_domains ?r = int (card (set ds))"
    using assms by (simp add: classify_domains_def Let_def distinct_card)
  have le: "num_trackers ?r \<le> num_domains ?r"
    by (simp add: nt td) (simp add: classify_domains_def Let_def)
  have sub: "fst ` set (tracker_domains ?r) \<subseteq> set ds"
    using keys by (metis filter_is_subset set_map)
  have dc: "distinct (map fst (category_counts ?r))"
    using classify_loop_counts_distinct [of "([], [])" pats ds]
    by (simp add: classify_domains_def Let_def)
  have sum: "sum_list (map snd (category_counts ?r)) = num_trackers ?r"
    using classify_loop_category_counts [of pats ds "([], [])"]
    by (simp add: nt td) (simp add: classify_domains_def Let_def)
  from nt card nd le sub dc sum show ?thesis by simp
qed

theorem classify_domains_invariants_witness:
  "distinct [''example.com'', ''ads.doubleclick.net''] \<and>
   num_trackers (classify_domains fallback_trackers [''example.com'', ''ads.doubleclick.net'']) =
     int (card (dom (map_of (tracker_domains
       (classify_domains fallback_trackers [''example.com'', ''ads.doubleclick.net''])))))  \<and>
   num_domains (classify_domains fallback_trackers [''example.com'', ''ads.doubleclick.net'']) =
     int (card (set [''example.com'', ''ads.doubleclick.net''])) \<and>
   sum_list (map snd (category_counts
       (classify_domains fallback_trackers [''example.com'', ''ads.doubleclick.net'']))) =
     num_trackers (classify_domains fallback_trackers [''example.com'', ''ads.doubleclick.net''])"
proof -
  have h: "distinct [''example.com'', ''ads.doubleclick.net'']" by simp
  from classify_domains_invariants [OF h, of fallback_trackers] h show ?thesis by blast
qed

lemma map_of_tracker_domains:
  assumes "distinct ds"
  shows "map_of (tracker_domains (classify_domains pats ds)) d =
          (if d \<in> set ds \<and> counted pats d then first_match pats d else None)"
proof -
  have "map_of (map (\<lambda>d. (d, the (first_match pats d))) xs) d =
        (if d \<in> set xs then Some (the (first_match pats d)) else None)" for xs
    by (induction xs) auto
  then show ?thesis
    by (auto simp: tracker_domains_eq [OF assms] counted_def split: option.splits)
qed

text \<open>
  When no entry of the tracker list has an empty category, a domain of the set is a key
  of \<open>tracker_domains\<close> exactly when some pattern occurs inside it, and its category is
  that of the first such entry.
\<close>

lemma classify_domains_first_match:
  assumes "distinct ds" and "\<forall>e\<in>set pats. snd e \<noteq> []"
  shows "map_of (tracker_domains (classify_domains pats ds)) d =
           (if d \<in> set ds then first_match pats d else None)"
    and "d \<in> dom (map_of (tracker_domains (classify_domains pats ds))) \<longleftrightarrow>
           d \<in> set ds \<and> (\<exists>e\<in>set pats. \<exists>a b. d = a @ fst e @ b)"
proof -
  have ne: "first_match pats d = Some c \<Longrightarrow> c \<noteq> []" for c
    using assms(2) by (induction pats) (auto split: if_splits)
  then have cnt: "counted pats d \<longleftrightarrow> first_match pats d \<noteq> None"
    by (auto simp: counted_def split: option.splits)
  show m: "map_of (tracker_domains (classify_domains pats ds)) d =
           (if d \<in> set ds then first_match pats d else None)"
    by (auto simp: map_of_tracker_domains [OF assms(1)] cnt)
  show "d \<in> dom (map_of (tracker_domains (classify_domains pats ds))) \<longleftrightarrow>
           d \<in> set ds \<and> (\<exists>e\<in>set pats. \<exists>a b. d = a @ fst e @ b)"
    using first_match_None [of pats d]
    by (auto simp: dom_def m contains_iff)
qed

text \<open>
  Claim C6, at a tracker list with an empty category. The row \<open>doubleclick.net,\<close> of
  \<open>trackers.csv\<close> loads as the entry \<open>(doubleclick.net, "")\<close>. Its pattern occurs inside
  \<open>ads.doubleclick.net\<close>, yet the domain is not classified: the test
  \<open>if matched_category:\<close> takes the empty category for no match.
\<close>

theorem empty_category_not_classified:
  "load_tracker_list (Return [[(''domain'', Some ''doubleclick.net''), (''category'', Some [])]]) =
     [(''doubleclick.net'', [])] \<and>
   contains ''ads.doubleclick.net'' ''doubleclick.net'' \<and>
   classify_domains [(''doubleclick.net'', [])] [''ads.doubleclick.net''] =
     \<lparr>all_domains = [''ads.doubleclick.net''],
      tracker_domains = [],
      num_domains = 1, num_trackers = 0,
      category_counts = [], risk_level = ''LOW''\<rparr>"
  by code_simp

section \<open>Risk level of a set of domains\<close>

lemma risk_level_spec:
  "risk_level (classify_domains pats ds) =
     spec_risk_level (num_trackers (classify_domains pats ds))"
  by (cases "fst (classify_loop pats ds ([], []))")
     (simp_all add: classify_domains_def Let_def spec_risk_level_def)

lemma fallback_example_1:
  "classify_domains fallback_trackers [''example.com'', ''ads.doubleclick.net''] =
     \<lparr>all_domains = [''ads.doubleclick.net'', ''example.com''],
      tracker_domains = [(''ads.doubleclick.net'', ''ads'')],
      num_domains = 2, num_trackers = 1,
      category_counts = [(''ads'', 1)], risk_level = ''MEDIUM''\<rparr>"
  by code_simp

lemma fallback_example_2:
  "classify_domains fallback_trackers [''ads.doubleclick.net'', ''example.com''] =
     \<lparr>all_domains = [''ads.doubleclick.net'', ''example.com''],
      tracker_domains = [(''ads.doubleclick.net'', ''ads'')],
      num_domains = 2, num_trackers = 1,
      category_counts = [(''ads'', 1)], risk_level = ''MEDIUM''\<rparr>"
  by code_simp

lemma load_tracker_list_missing: "load_tracker_list (Raise e) = fallback_trackers"
  by (simp add: load_tracker_list_def)

text \<open>
  Claim C5. The risk level of a summary is a function of its number of trackers alone:
  LOW for none, MEDIUM for 1 to 10, HIGH above 10. With \<open>trackers.csv\<close> unreadable, so
  that the built-in list is in use, the domains \<open>example.com\<close> and
  \<open>ads.doubleclick.net\<close>, visited in either order, give one tracker,
  \<open>ads.doubleclick.net\<close> under \<open>ads\<close>, and level MEDIUM.
\<close>

theorem risk_level_by_tracker_count:
  "risk_level (classify_domains pats ds) =
     spec_risk_level (num_trackers (classify_domains pats ds)) \<and>
   classify_domains (load_tracker_list (Raise e)) [''example.com'', ''ads.doubleclick.net''] =
     \<lparr>all_domains = [''ads.doubleclick.net'', ''example.com''],
      tracker_domains = [(''ads.doubleclick.net'', ''ads'')],
      num_domains = 2, num_trackers = 1,
      category_counts = [(''ads'', 1)], risk_level = ''MEDIUM''\<rparr> \<and>
   classify_domains (load_tracker_list (Raise e)) [''ads.doubleclick.net'', ''example.com''] =
     \<lparr>all_domains = [''ads.doubleclick.net'', ''example.com''],
      tracker_domains = [(''ads.doubleclick.net'', ''ads'')],
      num_domains = 2, num_trackers = 1,
      category_counts = [(''ads'', 1)], risk_level = ''MEDIUM''\<rparr>"
  by (simp only: risk_level_spec load_tracker_list_missing fallback_example_1 fallback_example_2
        simp_thms)

end
